theory Spec2Isabelle
  imports Main "HOL-Library.Sublist"
begin

section \<open>Strings\<close>

text \<open>
  JavaScript strings are modelled as \<^typ>\<open>string\<close>, one \<^typ>\<open>char\<close> per code unit.
  \<open>String.prototype.replace\<close> with a string pattern replaces the first occurrence of
  the pattern only; the replacement \<open>0x0\<close> used by the source holds no \<open>$\<close> pattern.
\<close>

fun replace_first :: "string \<Rightarrow> string \<Rightarrow> string \<Rightarrow> string" where
  "replace_first pat rep [] = (if pat = [] then rep else [])"
| "replace_first pat rep (c # cs) =
     (if prefix pat (c # cs) then rep @ drop (length pat) (c # cs)
      else c # replace_first pat rep cs)"

text \<open>
  \<open>formatEvenBytes\<close> (debuggerUtils.js, lines 229-234): when \<open>bytes.length % 2\<close> is
  truthy the first \<open>0x\<close> is replaced by \<open>0x0\<close>, otherwise the input is returned.
\<close>

definition formatEvenBytes :: "string \<Rightarrow> string" where
  "formatEvenBytes bytes =
     (if length bytes mod 2 \<noteq> 0 then replace_first ''0x'' ''0x0'' bytes else bytes)"


section \<open>Installation checker\<close>

text \<open>
  The host on which the extension runs: which commands the \<open>command-exists\<close> package
  finds on the PATH, and the text of the value its promise rejects with otherwise.
\<close>

record tool_host =
  installed :: "string \<Rightarrow> bool"
  rejection :: "string \<Rightarrow> string"

definition commandExists :: "tool_host \<Rightarrow> string \<Rightarrow> string + string" where
  "commandExists h name = (if installed h name then Inr name else Inl (rejection h name))"

text \<open>
  \<open>registerError\<close> (lines 220-223) shows one message to the user; the model returns
  the text shown.
\<close>

definition registerError :: "string \<Rightarrow> string \<Rightarrow> string" where
  "registerError e message = message @ [CHR 0x0A] @ ''Error Message:'' @ [CHR 0x0A] @ e"

text \<open>
  The two single checks (lines 168-198): the boolean the promise resolves to, and the
  messages shown on the way.
\<close>

definition checkHevmInstallation :: "tool_host \<Rightarrow> bool \<times> string list" where
  "checkHevmInstallation h =
     (case commandExists h ''hevm'' of
        Inr _ \<Rightarrow> (True, [])
      | Inl e \<Rightarrow> (False, [registerError e
          ''Hevm installation required - install here: https://github.com/dapphub/dapptools#installation'']))"

definition checkHuffcInstallation :: "tool_host \<Rightarrow> bool \<times> string list" where
  "checkHuffcInstallation h =
     (case commandExists h ''huffc'' of
        Inr _ \<Rightarrow> (True, [])
      | Inl e \<Rightarrow> (False, [registerError e
          ''Huffc compiler installation required - install here: https://github.com/huff-language/huff-rs'']))"

text \<open>
  The values \<open>Promise.all\<close> resolves to in \<open>checkInstallations\<close>: a boolean for a
  check that was called, the function object itself for one that was only named.
  A function object is truthy.
\<close>

datatype js_value = JBool bool | JFunction string

fun truthy :: "js_value \<Rightarrow> bool" where
  "truthy (JBool b) = b"
| "truthy (JFunction _) = True"

text \<open>
  \<open>checkInstallations\<close> (lines 205-211): the array holds the result of calling
  \<open>checkHevmInstallation()\<close> and the function \<open>checkHuffcInstallation\<close>, not called;
  \<open>every(result => result)\<close> tests each element for truthiness.
\<close>

definition checkInstallations :: "tool_host \<Rightarrow> bool \<times> string list" where
  "checkInstallations h =
     (let (hevm, shown) = checkHevmInstallation h;
          results = [JBool hevm, JFunction ''checkHuffcInstallation'']
      in (list_all truthy results, shown))"

text \<open>A host with hevm on the PATH and no huffc.\<close>

definition hevm_only_host :: tool_host where
  "hevm_only_host = \<lparr>installed = (\<lambda>n. n = ''hevm''), rejection = (\<lambda>n. ''null'')\<rparr>"


section \<open>The file system and the processes the extension starts\<close>

text \<open>
  The functions of debuggerUtils.js act on the disk through Node's \<open>fs\<close> module and
  through \<open>execSync\<close>. The disk is modelled as a map from path strings, as the source
  builds them (\<open>cwd + "/" + name\<close>), to nodes. A \<open>.git\<close> entry is one node that holds
  what the claims speak of: the staged files and, for each revision, the files it tracks.
  \<open>protected\<close> marks the paths the process may not create, overwrite or remove,
  \<open>git_ready\<close> says whether \<open>git init\<close> and \<open>git commit\<close> can run on this machine
  (git installed, an identity configured), and \<open>console\<close> collects what
  \<open>console.log\<close> prints.
\<close>

datatype node = File string | Dir | GitDir "string list" "string list list"

datatype error = ENOENT | ENOTDIR | EEXIST | EACCES | EISDIR | ChildProcessError | TypeError

record world =
  nodes :: "string \<Rightarrow> node option"
  protected :: "string \<Rightarrow> bool"
  git_ready :: bool
  console :: "string list"

definition console_log :: "string \<Rightarrow> world \<Rightarrow> world" where
  "console_log msg w = w\<lparr>console := console w @ [msg]\<rparr>"

text \<open>The directory part of a path: everything before its last \<open>/\<close>.\<close>

definition dirname :: "string \<Rightarrow> string" where
  "dirname p = rev (drop 1 (dropWhile (\<lambda>c. c \<noteq> CHR ''/'') (rev p)))"

text \<open>\<open>inside d p\<close>: the path \<open>p\<close> is the directory \<open>d\<close> or lies below it.\<close>

definition inside :: "string \<Rightarrow> string \<Rightarrow> bool" where
  "inside d p = (p = d \<or> prefix (d @ ''/'') p)"

text \<open>
  An entry can be created only in a directory that exists. The empty directory part
  stands for the root (\<open>/cache\<close>) or the process's working directory.
\<close>

definition parent_check :: "world \<Rightarrow> string \<Rightarrow> error option" where
  "parent_check w p =
     (if dirname p = [] then None
      else case nodes w (dirname p) of
             None \<Rightarrow> Some ENOENT
           | Some Dir \<Rightarrow> None
           | Some _ \<Rightarrow> Some ENOTDIR)"

text \<open>Every entry of a real disk lives in an existing directory.\<close>

definition well_formed :: "world \<Rightarrow> bool" where
  "well_formed w = (\<forall>p. nodes w p \<noteq> None \<longrightarrow> parent_check w p = None)"

text \<open>\<open>fs.accessSync(path)\<close>: raises when the path does not exist.\<close>

definition accessSync :: "string \<Rightarrow> world \<Rightarrow> error + world" where
  "accessSync p w = (if nodes w p = None then Inl ENOENT else Inr w)"

text \<open>\<open>fs.mkdirSync(path)\<close>, not recursive.\<close>

definition mkdirSync :: "string \<Rightarrow> world \<Rightarrow> error + world" where
  "mkdirSync p w =
     (case parent_check w p of
        Some e \<Rightarrow> Inl e
      | None \<Rightarrow>
          if nodes w p \<noteq> None then Inl EEXIST
          else if protected w p then Inl EACCES
          else Inr (w\<lparr>nodes := (nodes w)(p \<mapsto> Dir)\<rparr>))"

text \<open>
  \<open>fs.rmSync(path, {recursive: true})\<close>, without \<open>force\<close>: raises when the path does
  not exist, removes the entry and everything below it otherwise.
\<close>

definition rmSync_recursive :: "string \<Rightarrow> world \<Rightarrow> error + world" where
  "rmSync_recursive p w =
     (if nodes w p = None then Inl ENOENT
      else if protected w p then Inl EACCES
      else Inr (w\<lparr>nodes := (\<lambda>q. if inside p q then None else nodes w q)\<rparr>))"

text \<open>\<open>fs.writeFileSync(path, data)\<close>: creates the file or replaces its content.\<close>

definition writeFileSync :: "string \<Rightarrow> string \<Rightarrow> world \<Rightarrow> error + world" where
  "writeFileSync p data w =
     (case parent_check w p of
        Some e \<Rightarrow> Inl e
      | None \<Rightarrow>
          (case nodes w p of
             Some Dir \<Rightarrow> Inl EISDIR
           | Some (GitDir st revs) \<Rightarrow> Inl EISDIR
           | _ \<Rightarrow> if protected w p then Inl EACCES
                  else Inr (w\<lparr>nodes := (nodes w)(p \<mapsto> File data)\<rparr>)))"

text \<open>
  \<open>execSync('git init && git commit --allow-empty -m "init"', {cwd: dir})\<close>:
  \<open>git init\<close> creates \<open>dir/.git\<close> with nothing staged and no revision (and keeps a
  repository that is already there); \<open>git commit --allow-empty\<close> adds one revision
  that tracks the staged files. The call raises when \<open>dir\<close> is no directory or git
  cannot run.
\<close>

definition git_init_commit :: "string \<Rightarrow> world \<Rightarrow> error + world" where
  "git_init_commit dir w =
     (if nodes w dir \<noteq> Some Dir then Inl ENOENT
      else if \<not> git_ready w \<or> protected w (dir @ ''/.git'') then Inl ChildProcessError
      else
        (case nodes w (dir @ ''/.git'') of
           Some (GitDir st revs) \<Rightarrow>
             Inr (w\<lparr>nodes := (nodes w)(dir @ ''/.git'' \<mapsto> GitDir st (revs @ [st]))\<rparr>)
         | Some _ \<Rightarrow> Inl ChildProcessError
         | None \<Rightarrow> Inr (w\<lparr>nodes := (nodes w)(dir @ ''/.git'' \<mapsto> GitDir [] [[]])\<rparr>)))"

text \<open>Sequencing of calls that may raise: the first error ends the function.\<close>

definition and_then :: "error + 'a \<Rightarrow> ('a \<Rightarrow> error + 'b) \<Rightarrow> error + 'b" where
  "and_then m f = (case m of Inl e \<Rightarrow> Inl e | Inr x \<Rightarrow> f x)"


section \<open>Cache and state repository (debuggerUtils.js)\<close>

text \<open>
  The statement \<open>try { !fs.accessSync(`${cwd}/cache`) } catch (e) { fs.mkdirSync(`${cwd}/cache`) }\<close>
  of \<open>writeHevmCommand\<close> (lines 58-59) and of \<open>resetStateRepo\<close> (lines 91-92).
\<close>

definition ensureCacheDir :: "string \<Rightarrow> world \<Rightarrow> error + world" where
  "ensureCacheDir cwd w =
     (case accessSync (cwd @ ''/cache'') w of
        Inr w' \<Rightarrow> Inr w'
      | Inl e \<Rightarrow> mkdirSync (cwd @ ''/cache'') w)"

text \<open>\<open>writeHevmCommand\<close> (lines 56-61).\<close>

definition writeHevmCommand :: "string \<Rightarrow> string \<Rightarrow> string \<Rightarrow> world \<Rightarrow> error + world" where
  "writeHevmCommand command file cwd w =
     and_then (ensureCacheDir cwd w) (writeFileSync (cwd @ ''/'' @ file) command)"

text \<open>\<open>purgeCache\<close> (lines 64-67): the \<open>catch\<close> has no condition on the error.\<close>

definition purgeCache :: "string \<Rightarrow> world \<Rightarrow> error + world" where
  "purgeCache cwd w =
     (case rmSync_recursive (cwd @ ''/cache'') w of
        Inr w' \<Rightarrow> Inr w'
      | Inl e \<Rightarrow> Inr (console_log ''Cache didn't exist'' w))"

text \<open>
  \<open>resetStateRepo\<close> (lines 81-99), in its two steps: deleting the old state (lines
  86-88, a \<open>try\<close> whose \<open>catch\<close> has no condition on the error), and creating the
  repository (lines 90-98).
\<close>

definition deleteOldState :: "string \<Rightarrow> world \<Rightarrow> error + world" where
  "deleteOldState fullPath w =
     (case rmSync_recursive fullPath w of
        Inr w' \<Rightarrow> Inr w'
      | Inl e \<Rightarrow> Inr (console_log ''Cache didn't exist'' w))"

definition createStateRepo :: "string \<Rightarrow> string \<Rightarrow> world \<Rightarrow> error + world" where
  "createStateRepo fullPath cwd w =
     and_then (ensureCacheDir cwd w) (\<lambda>w1.
     and_then (mkdirSync fullPath w1) (\<lambda>w2.
     and_then (git_init_commit fullPath w2) (\<lambda>w3.
     Inr (console_log ''Created state repository...'' w3))))"

definition resetStateRepo :: "string \<Rightarrow> string \<Rightarrow> world \<Rightarrow> error + world" where
  "resetStateRepo statePath cwd w =
     (let fullPath = cwd @ ''/'' @ statePath in
      and_then (deleteOldState fullPath (console_log ''Creating state repository...'' w))
        (createStateRepo fullPath cwd))"


text \<open>
  A directory that is a repository with nothing staged and exactly one revision, which
  tracks no file.
\<close>

definition fresh_repo :: "string \<Rightarrow> world \<Rightarrow> bool" where
  "fresh_repo dir w =
     (nodes w dir = Some Dir \<and> nodes w (dir @ ''/.git'') = Some (GitDir [] [[]]))"


section \<open>Deploying (debuggerUtils.js)\<close>

record config =
  hevmContractAddress :: string
  hevmCaller :: string
  stateChecked :: bool
  storageChecked :: bool
  statePath :: string
  tempHevmCommandFilename :: string








section \<open>The webview script (functions.main.js)\<close>

text \<open>
  The function table the extension sends is an object from a function's identifier to
  its signature and its argument placeholders. It is modelled as the list of its
  entries in the order of \<open>Object.entries\<close> and of \<open>for ... in\<close>.
\<close>

record fn_props =
  fnSig :: string
  args :: "string list"

type_synonym fn_entry = "string \<times> fn_props"

type_synonym fn_table = "fn_entry list"

text \<open>
  The state the host keeps for the panel (\<open>vscode.getState()\<close>). A component that
  is absent or \<open>undefined\<close> is \<open>None\<close>. \<open>argsValues\<close> maps a function's identifier to
  the values typed for it, by the number of the input field (from 1).
\<close>

record webview_state =
  functionSelectors :: "fn_table option"
  selectedFunction :: "fn_entry option"
  argsValues :: "(string \<Rightarrow> (nat \<Rightarrow> string option) option) option"

text \<open>The object \<open>{}\<close>.\<close>

definition empty_state :: webview_state where
  "empty_state = \<lparr>functionSelectors = None, selectedFunction = None, argsValues = None\<rparr>"

text \<open>\<open>cleanState\<close> (lines 136-142).\<close>

definition cleanState :: "webview_state \<Rightarrow> webview_state" where
  "cleanState state =
     \<lparr>functionSelectors = Some (case functionSelectors state of Some t \<Rightarrow> t | None \<Rightarrow> []),
      selectedFunction = selectedFunction state,
      argsValues = Some (\<lambda>k. None)\<rparr>"

text \<open>
  The page while the script runs: the state the host keeps, the script's two variables,
  the options of the drop-down and the one selected, the values of the input fields
  rendered, and the number of click listeners on the drop-down.
\<close>

record page =
  persisted :: "webview_state option"
  var_functionSelectors :: "fn_table option"
  var_selectedFunction :: "fn_entry option"
  options :: "string list"
  selected :: "nat option"
  inputs :: "string list"
  listeners :: nat

text \<open>\<open>{...vscode.getState()}\<close>: the properties of the state, none when there is no state.\<close>

definition spread_state :: "page \<Rightarrow> webview_state" where
  "spread_state pg = (case persisted pg of Some s \<Rightarrow> s | None \<Rightarrow> empty_state)"

text \<open>
  The value of the drop-down is the text of the selected option, the empty string when
  none is selected. Setting the value selects the first option with that text, or none.
\<close>

definition dropdown_value :: "page \<Rightarrow> string" where
  "dropdown_value pg =
     (case selected pg of
        Some i \<Rightarrow> if i < length (options pg) then options pg ! i else []
      | None \<Rightarrow> [])"

primrec index_of :: "string \<Rightarrow> string list \<Rightarrow> nat option" where
  "index_of v [] = None"
| "index_of v (x # xs) = (if x = v then Some 0 else map_option Suc (index_of v xs))"

text \<open>
  The value an input field is given (line 250):
  \<open>(argsValues[id] && argsValues[id][i]) ? argsValues[id][i] : arg\<close>.
  A string is truthy when it is not empty.
\<close>

definition prefill :: "(string \<Rightarrow> (nat \<Rightarrow> string option) option) \<Rightarrow> string \<Rightarrow> nat \<Rightarrow> string \<Rightarrow> string" where
  "prefill av k i arg =
     (case av k of
        None \<Rightarrow> arg
      | Some m \<Rightarrow> (case m i of None \<Rightarrow> arg | Some v \<Rightarrow> if v \<noteq> [] then v else arg))"

text \<open>
  The loop of \<open>createArgsInputs\<close> (lines 240-269), \<open>i\<close> being the number of the next
  field. Reading \<open>state.argsValues[...]\<close> raises a TypeError when the state has no
  \<open>argsValues\<close>; the fields rendered so far stay.
\<close>

fun renderInputs :: "string \<Rightarrow> string list \<Rightarrow> nat \<Rightarrow> page \<Rightarrow> page \<times> error option" where
  "renderInputs k [] i pg = (pg, None)"
| "renderInputs k (arg # rest) i pg =
     (case persisted pg of
        None \<Rightarrow> (pg, Some TypeError)
      | Some state \<Rightarrow>
          (case argsValues state of
             None \<Rightarrow> (pg, Some TypeError)
           | Some av \<Rightarrow>
               renderInputs k rest (Suc i) (pg\<lparr>inputs := inputs pg @ [prefill av k i arg]\<rparr>)))"

text \<open>
  \<open>createArgsInputs\<close> (lines 226-270), for an event whose target has the value \<open>v\<close>.
  The result is the page it leaves and the error it raised, if any: what it did before
  raising stays done.
\<close>

definition createArgsInputs :: "string \<Rightarrow> page \<Rightarrow> page \<times> error option" where
  "createArgsInputs v pg =
     (if v = [] then (pg, None)
      else case var_functionSelectors pg of
        None \<Rightarrow> (pg, Some TypeError)
      | Some t \<Rightarrow>
          (let funcProperties = find (\<lambda>(key, value). fnSig value = v) t;
               pg1 = pg\<lparr>var_selectedFunction := funcProperties,
                        persisted := Some ((spread_state pg)\<lparr>selectedFunction := funcProperties\<rparr>),
                        inputs := []\<rparr>
           in case funcProperties of
                None \<Rightarrow> (pg1, Some TypeError)
              | Some (key, value) \<Rightarrow> renderInputs key (args value) 1 pg1))"

text \<open>
  The listener of an input field (lines 252-261), for the field with number \<open>n\<close> (its \<open>id\<close>) and
  the text \<open>v\<close> typed into it.
\<close>

definition onInput :: "nat \<Rightarrow> string \<Rightarrow> page \<Rightarrow> page \<times> error option" where
  "onInput n v pg =
     (let pg1 = pg\<lparr>inputs := (inputs pg)[n - 1 := v]\<rparr> in
      case persisted pg1 of
        None \<Rightarrow> (pg1, Some TypeError)
      | Some state \<Rightarrow>
          (case var_selectedFunction pg1 of
             None \<Rightarrow> (pg1, Some TypeError)
           | Some (key, value) \<Rightarrow>
               (case argsValues state of
                  None \<Rightarrow> (pg1, Some TypeError)
                | Some av \<Rightarrow>
                    (let m = (case av key of Some m \<Rightarrow> m | None \<Rightarrow> (\<lambda>j. None))
                     in (pg1\<lparr>persisted :=
                           Some (state\<lparr>argsValues := Some (av(key \<mapsto> m(n \<mapsto> v)))\<rparr>)\<rparr>,
                         None)))))"

text \<open>
  \<open>functionSelectorDropdown.click()\<close>: every click listener runs \<open>createArgsInputs\<close>
  with the value of the drop-down; an error raised by a listener is reported and does
  not reach the caller.
\<close>

definition click :: "page \<Rightarrow> page" where
  "click pg = ((\<lambda>p. fst (createArgsInputs (dropdown_value p) p)) ^^ listeners pg) pg"

text \<open>
  \<open>addOptionsToFunctionSelector\<close> (lines 205-224). Its second parameter hides the
  script's variable \<open>selectedFunction\<close>. A drop-down with options and none selected
  selects its first option.
\<close>

definition addOptionsToFunctionSelector :: "fn_table option \<Rightarrow> fn_entry option \<Rightarrow> page \<Rightarrow> page" where
  "addOptionsToFunctionSelector fs sel pg =
     (let pg1 = pg\<lparr>var_functionSelectors := fs,
                    persisted := Some ((spread_state pg)\<lparr>functionSelectors := fs\<rparr>),
                    listeners := Suc (listeners pg)\<rparr>;
          opts = options pg1 @ map (\<lambda>(key, value). fnSig value) (case fs of Some t \<Rightarrow> t | None \<Rightarrow> []);
          sel1 = (case selected pg1 of
                    None \<Rightarrow> if opts = [] then None else Some 0
                  | Some i \<Rightarrow> Some i);
          sel2 = (case sel of None \<Rightarrow> sel1 | Some (key, value) \<Rightarrow> index_of (fnSig value) opts)
      in click (pg1\<lparr>options := opts, selected := sel2\<rparr>))"

text \<open>
  The start of the script (lines 144-153) in a panel just shown, \<open>host\<close> being what
  \<open>vscode.getState()\<close> gives: nothing, or the state kept from before the panel was
  hidden.
\<close>

definition startup :: "webview_state option \<Rightarrow> page" where
  "startup host =
     (let oldState = (case host of Some s \<Rightarrow> cleanState s | None \<Rightarrow> empty_state);
          pg = \<lparr>persisted = host,
                var_functionSelectors = functionSelectors oldState,
                var_selectedFunction = selectedFunction oldState,
                options = [], selected = None, inputs = [], listeners = 0\<rparr>
      in addOptionsToFunctionSelector (functionSelectors oldState) (selectedFunction oldState) pg)"

text \<open>The value kept for a function and a field.\<close>

definition stored_value :: "(string \<Rightarrow> (nat \<Rightarrow> string option) option) \<Rightarrow> string \<Rightarrow> nat \<Rightarrow> string option" where
  "stored_value av k i = (case av k of None \<Rightarrow> None | Some m \<Rightarrow> m i)"

text \<open>
  The function table of a state as the script reads it,
  \<open>state.functionSelectors || {}\<close>: an absent table is the empty one.
\<close>

definition table_of :: "webview_state \<Rightarrow> fn_table" where
  "table_of s = (case functionSelectors s of Some t \<Rightarrow> t | None \<Rightarrow> [])"

text \<open>
  Loading the interface: the click on \<open>Load interface\<close> (lines 158-162) empties the
  drop-down and asks the extension for the document's functions; the extension answers
  with \<open>receiveContractInterface\<close>, whose handler (lines 188-196) calls
  \<open>addOptionsToFunctionSelector(message.data, null)\<close>.
\<close>

definition loadInterface :: "fn_table \<Rightarrow> page \<Rightarrow> page" where
  "loadInterface t pg =
     addOptionsToFunctionSelector (Some t) None (pg\<lparr>options := [], selected := None\<rparr>)"

text \<open>The user picks the option \<open>v\<close> of the drop-down: it is selected and clicked.\<close>

definition chooseFunction :: "string \<Rightarrow> page \<Rightarrow> page" where
  "chooseFunction v pg = click (pg\<lparr>selected := index_of v (options pg)\<rparr>)"

text \<open>
  The pages the script can be on: it starts in a panel that has no state; the user loads
  an interface (every signature of a table is a non-empty string), picks a function or
  types into an input field; and the panel is hidden and shown again, which starts the
  script anew on the state the host kept.
\<close>

inductive reachable :: "page \<Rightarrow> bool" where
  fresh: "reachable (startup None)"
| load: "reachable pg \<Longrightarrow> list_all (\<lambda>(key, value). fnSig value \<noteq> []) t \<Longrightarrow>
         reachable (loadInterface t pg)"
| choose: "reachable pg \<Longrightarrow> v \<in> set (options pg) \<Longrightarrow> reachable (chooseFunction v pg)"
| input: "reachable pg \<Longrightarrow> reachable (fst (onInput n v pg))"
| restart: "reachable pg \<Longrightarrow> reachable (startup (persisted pg))"

text \<open>
  What holds of every such page: the state has no \<open>argsValues\<close> and no input field is
  rendered; the state's table is the script's and the drop-down lists its signatures;
  and the selected function, if its signature is in the table, is the first entry with
  that signature.
\<close>

definition selection_fits :: "webview_state \<Rightarrow> bool" where
  "selection_fits s =
     (case selectedFunction s of
        None \<Rightarrow> table_of s = []
      | Some (k, f) \<Rightarrow>
          fnSig f \<in> set (map (\<lambda>(key, value). fnSig value) (table_of s)) \<longrightarrow>
          find (\<lambda>(key, value). fnSig value = fnSig f) (table_of s) = Some (k, f))"

definition settled :: "page \<Rightarrow> bool" where
  "settled pg =
     (case persisted pg of
        None \<Rightarrow> False
      | Some s \<Rightarrow>
          argsValues s = None \<and> inputs pg = []
          \<and> functionSelectors s = var_functionSelectors pg
          \<and> options pg = map (\<lambda>(key, value). fnSig value) (table_of s)
          \<and> list_all (\<lambda>(key, value). fnSig value \<noteq> []) (table_of s))"

definition consistent :: "page \<Rightarrow> bool" where
  "consistent pg = (settled pg \<and> selection_fits (spread_state pg))"

text \<open>
  A sample: the table of the specification's example, the page of a panel shown for
  the first time on which that table has been loaded, and that page after the user has
  picked \<open>bar(uint256)\<close>.
\<close>

definition sample_table :: fn_table where
  "sample_table =
     [(''foo'', \<lparr>fnSig = ''foo()'', args = []\<rparr>),
      (''bar'', \<lparr>fnSig = ''bar(uint256)'', args = [''<uint256>'']\<rparr>)]"

definition loaded_page :: page where
  "loaded_page = loadInterface sample_table (startup None)"

definition chosen_page :: page where
  "chosen_page = chooseFunction ''bar(uint256)'' loaded_page"


section \<open>Sample disks\<close>

text \<open>
  A project directory \<open>/w\<close> with nothing in it; the same with a cache directory; and
  one whose cache directory, with a state directory in it, the process may not change.
\<close>

definition project_world :: world where
  "project_world =
     \<lparr>nodes = [''/w'' \<mapsto> Dir], protected = (\<lambda>p. False), git_ready = True, console = []\<rparr>"

definition locked_world :: world where
  "locked_world =
     \<lparr>nodes = [''/w'' \<mapsto> Dir, ''/w/cache'' \<mapsto> Dir, ''/w/cache/state'' \<mapsto> Dir],
      protected = (\<lambda>p. inside ''/w/cache'' p), git_ready = True, console = []\<rparr>"

definition cache_world :: world where
  "cache_world =
     \<lparr>nodes = [''/w'' \<mapsto> Dir, ''/w/cache'' \<mapsto> Dir], protected = (\<lambda>p. False),
      git_ready = True, console = []\<rparr>"



section \<open>Sample configurations\<close>





section \<open>Properties of formatEvenBytes\<close>

lemma replace_first_length:
  "replace_first pat rep s = s \<or>
   length (replace_first pat rep s) + length pat = length s + length rep"
proof (induction s)
  case Nil
  then show ?case by simp
next
  case (Cons c cs)
  show ?case
  proof (cases "prefix pat (c # cs)")
    case True
    then have "length pat \<le> length (c # cs)" by (rule prefix_length_le)
    with True show ?thesis by simp
  next
    case False
    with Cons show ?thesis by auto
  qed
qed

lemma replace_first_absent:
  "\<not> sublist pat s \<Longrightarrow> replace_first pat rep s = s"
proof (induction s)
  case Nil
  then show ?case by auto
next
  case (Cons c cs)
  then have "\<not> prefix pat (c # cs)" and "\<not> sublist pat cs"
    by (auto simp: sublist_Cons_right)
  with Cons.IH show ?case by simp
qed

lemma replace_first_prefix:
  "prefix pat s \<Longrightarrow> replace_first pat rep s = rep @ drop (length pat) s"
  by (cases s) auto

lemma formatEvenBytes_idem: "formatEvenBytes (formatEvenBytes s) = formatEvenBytes s"
proof (cases "length s mod 2 = 0")
  case True
  then show ?thesis by (simp add: formatEvenBytes_def)
next
  case False
  let ?r = "replace_first ''0x'' ''0x0'' s"
  from False have fs: "formatEvenBytes s = ?r" by (simp add: formatEvenBytes_def)
  from replace_first_length [of "''0x''" "''0x0''" s]
  consider "?r = s" | "length ?r + 2 = length s + 3" by auto
  then show ?thesis
  proof cases
    case 1
    with fs show ?thesis by simp
  next
    case 2
    with False have "length ?r mod 2 = 0" by presburger
    then have "formatEvenBytes ?r = ?r" by (simp add: formatEvenBytes_def)
    with fs show ?thesis by simp
  qed
qed

text \<open>
  C6. For every string that starts with \<open>0x\<close>, the result of \<open>formatEvenBytes\<close>
  still starts with \<open>0x\<close> and has an even number of characters after it;
  \<open>formatEvenBytes("0xabc")\<close> is \<open>0x0abc\<close>, \<open>formatEvenBytes("0xabcd")\<close> is
  \<open>0xabcd\<close>; and applying \<open>formatEvenBytes\<close> twice equals applying it once (for
  every string, prefixed or not).
\<close>

theorem formatEvenBytes_even_digits:
  "(prefix ''0x'' s \<longrightarrow>
      prefix ''0x'' (formatEvenBytes s) \<and> even (length (drop 2 (formatEvenBytes s))))
   \<and> formatEvenBytes ''0xabc'' = ''0x0abc''
   \<and> formatEvenBytes ''0xabcd'' = ''0xabcd''
   \<and> formatEvenBytes (formatEvenBytes s) = formatEvenBytes s"
proof -
  have digits: "prefix ''0x'' (formatEvenBytes s) \<and> even (length (drop 2 (formatEvenBytes s)))"
    if p: "prefix ''0x'' s"
  proof (cases "length s mod 2 = 0")
    case True
    with p show ?thesis by (auto simp: formatEvenBytes_def)
  next
    case False
    from p have "formatEvenBytes s = ''0x0'' @ drop 2 s"
      using False by (simp add: formatEvenBytes_def replace_first_prefix numeral_2_eq_2)
    moreover from p have "2 \<le> length s" using prefix_length_le by fastforce
    ultimately show ?thesis using False by (simp, presburger)
  qed
  have ex1: "formatEvenBytes ''0xabc'' = ''0x0abc''" by (simp add: formatEvenBytes_def)
  have ex2: "formatEvenBytes ''0xabcd'' = ''0xabcd''" by (simp add: formatEvenBytes_def)
  from digits ex1 ex2 formatEvenBytes_idem show ?thesis by blast
qed

theorem formatEvenBytes_even_digits_witness:
  "prefix ''0x'' ''0x123'' \<and> formatEvenBytes ''0x123'' = ''0x0123''
   \<and> even (length (drop 2 (formatEvenBytes ''0x123'')))
   \<and> formatEvenBytes (formatEvenBytes ''0x123'') = ''0x0123''"
  using formatEvenBytes_even_digits [of "''0x123''"] by (simp add: formatEvenBytes_def)

text \<open>
  C10. A string of odd length in which \<open>0x\<close> does not occur is returned unchanged by
  \<open>formatEvenBytes\<close>, so its length is still odd.
\<close>

theorem formatEvenBytes_unprefixed_odd:
  "odd (length s) \<Longrightarrow> \<not> sublist ''0x'' s \<Longrightarrow>
   formatEvenBytes s = s \<and> odd (length (formatEvenBytes s))"
  by (simp add: formatEvenBytes_def replace_first_absent)

theorem formatEvenBytes_unprefixed_odd_witness:
  "odd (length ''abc'') \<and> \<not> sublist ''0x'' ''abc''
   \<and> formatEvenBytes ''abc'' = ''abc'' \<and> odd (length (formatEvenBytes ''abc''))"
proof -
  have h1: "odd (length ''abc'')" by simp
  have h2: "\<not> sublist ''0x'' ''abc''" by (simp add: sublist_Cons_right)
  from formatEvenBytes_unprefixed_odd [OF h1 h2] h1 h2 show ?thesis by simp
qed


section \<open>Properties of the installation checker\<close>

text \<open>
  C1. \<open>checkInstallations\<close> names \<open>checkHuffcInstallation\<close> without calling it, so the
  second element of the results is a function object, which is truthy: the aggregate
  check gives exactly what the hevm check gives (the same boolean and the same
  messages), and it is true whenever hevm is installed, whatever the PATH holds for
  huffc.
\<close>

theorem checkInstallations_skips_huffc:
  "checkInstallations h = checkHevmInstallation h
   \<and> (installed h ''hevm'' \<longrightarrow> checkInstallations h = (True, []))"
  by (simp add: checkInstallations_def checkHevmInstallation_def commandExists_def
      split: prod.splits)

theorem checkInstallations_skips_huffc_witness:
  "installed hevm_only_host ''hevm'' \<and> \<not> installed hevm_only_host ''huffc''
   \<and> checkInstallations hevm_only_host = (True, [])
   \<and> fst (checkHuffcInstallation hevm_only_host) = False"
  using checkInstallations_skips_huffc [of hevm_only_host]
  by (simp add: hevm_only_host_def checkHuffcInstallation_def checkHevmInstallation_def
      commandExists_def)


section \<open>Properties of the cache and the state repository\<close>

lemma console_log_fields [simp]:
  "nodes (console_log m w) = nodes w"
  "protected (console_log m w) = protected w"
  "git_ready (console_log m w) = git_ready w"
  by (simp_all add: console_log_def)

lemma and_then_Inr:
  "and_then m f = Inr y \<longleftrightarrow> (\<exists>x. m = Inr x \<and> f x = Inr y)"
  by (cases m) (simp_all add: and_then_def)

lemma and_then_simps [simp]:
  "and_then (Inl e) f = Inl e" "and_then (Inr x) f = f x"
  by (simp_all add: and_then_def)

lemma dirname_shorter: "p \<noteq> [] \<Longrightarrow> length (dirname p) < length p"
proof -
  assume "p \<noteq> []"
  have "length (dropWhile (\<lambda>c. c \<noteq> CHR ''/'') (rev p)) \<le> length p"
    using length_dropWhile_le [of _ "rev p"] by simp
  with \<open>p \<noteq> []\<close> show ?thesis by (cases p) (auto simp: dirname_def)
qed

lemma dirname_git: "dirname (d @ ''/.git'') = d"
  by (simp add: dirname_def)

lemma inside_length: "inside d p \<Longrightarrow> length d \<le> length p"
  by (auto simp: inside_def dest: prefix_length_le)

lemma inside_git: "inside d (d @ ''/.git'')"
  by (simp add: inside_def)

lemma cache_not_below: "\<not> prefix (cwd @ ''/'' @ sp @ ''/'') (cwd @ ''/cache'')"
proof
  assume "prefix (cwd @ ''/'' @ sp @ ''/'') (cwd @ ''/cache'')"
  then have "prefix (sp @ ''/'') ''cache''" by simp
  then have "set (sp @ ''/'') \<subseteq> set ''cache''" by (rule set_mono_prefix)
  then show False by simp
qed

lemma git_not_cache: "cwd @ ''/'' @ sp @ ''/.git'' \<noteq> cwd @ ''/cache''"
proof
  assume "cwd @ ''/'' @ sp @ ''/.git'' = cwd @ ''/cache''"
  then have "sp @ ''/.git'' = ''cache''" by simp
  moreover have "CHR ''/'' \<in> set (sp @ ''/.git'')" by simp
  ultimately have "CHR ''/'' \<in> set ''cache''" by metis
  then show False by simp
qed


lemma mkdirSync_Inr:
  "mkdirSync p w = Inr w' \<longleftrightarrow>
     parent_check w p = None \<and> nodes w p = None \<and> \<not> protected w p
     \<and> w' = w\<lparr>nodes := (nodes w)(p \<mapsto> Dir)\<rparr>"
  by (auto simp: mkdirSync_def split: option.splits)

lemma ensureCacheDir_Inr:
  "ensureCacheDir cwd w = Inr w' \<Longrightarrow>
     nodes w' (cwd @ ''/cache'') \<noteq> None \<and> protected w' = protected w
     \<and> git_ready w' = git_ready w
     \<and> (\<forall>q. q \<noteq> cwd @ ''/cache'' \<longrightarrow> nodes w' q = nodes w q)
     \<and> (nodes w (cwd @ ''/cache'') \<noteq> None \<longrightarrow> w' = w)"
  by (auto simp: ensureCacheDir_def accessSync_def mkdirSync_Inr split: if_splits)

lemma ensureCacheDir_present:
  "nodes w (cwd @ ''/cache'') \<noteq> None \<Longrightarrow> ensureCacheDir cwd w = Inr w"
  by (auto simp: ensureCacheDir_def accessSync_def)

lemma git_init_commit_new:
  "nodes w d = Some Dir \<Longrightarrow> git_ready w \<Longrightarrow> \<not> protected w (d @ ''/.git'') \<Longrightarrow>
   nodes w (d @ ''/.git'') = None \<Longrightarrow>
   git_init_commit d w = Inr (w\<lparr>nodes := (nodes w)(d @ ''/.git'' \<mapsto> GitDir [] [[]])\<rparr>)"
  by (simp add: git_init_commit_def)

lemma git_init_commit_Inr:
  "git_init_commit d w = Inr w' \<Longrightarrow>
   nodes w d = Some Dir \<and> git_ready w \<and> \<not> protected w (d @ ''/.git'')"
  by (auto simp: git_init_commit_def split: if_splits)

text \<open>What a successful creation of the repository needs and gives.\<close>

lemma createStateRepo_Inr:
  assumes ok: "createStateRepo (cwd @ ''/'' @ sp) cwd w = Inr w'"
    and nogit: "nodes w (cwd @ ''/'' @ sp @ ''/.git'') = None"
  shows "fresh_repo (cwd @ ''/'' @ sp) w'"
    and "nodes w' (cwd @ ''/cache'') \<noteq> None"
    and "protected w' = protected w" and "git_ready w' = git_ready w"
    and "git_ready w" and "\<not> protected w (cwd @ ''/'' @ sp)"
    and "\<not> protected w (cwd @ ''/'' @ sp @ ''/.git'')"
    and "cwd @ ''/'' @ sp \<noteq> cwd @ ''/cache''"
    and "dirname (cwd @ ''/'' @ sp) = [] \<or> nodes w' (dirname (cwd @ ''/'' @ sp)) = Some Dir"
    and "nodes w (cwd @ ''/'' @ sp) = None"
proof -
  let ?fp = "cwd @ ''/'' @ sp"
  from ok obtain w1 w2 w3 where
    e: "ensureCacheDir cwd w = Inr w1" and m: "mkdirSync ?fp w1 = Inr w2"
    and g: "git_init_commit ?fp w2 = Inr w3"
    and w': "w' = console_log ''Created state repository...'' w3"
    by (auto simp: createStateRepo_def and_then_Inr)
  note E = ensureCacheDir_Inr [OF e]
  from m have M: "parent_check w1 ?fp = None" "nodes w1 ?fp = None" "\<not> protected w1 ?fp"
    "w2 = w1\<lparr>nodes := (nodes w1)(?fp \<mapsto> Dir)\<rparr>"
    by (simp_all add: mkdirSync_Inr)
  from E M(2) show ne: "?fp \<noteq> cwd @ ''/cache''" by auto
  from E ne show "nodes w ?fp = None" using M(2) by auto
  have gc: "?fp @ ''/.git'' \<noteq> cwd @ ''/cache''" using git_not_cache [of cwd sp] by simp
  from E gc nogit have n1: "nodes w1 (?fp @ ''/.git'') = None" by auto
  from M(4) n1 have n2: "nodes w2 (?fp @ ''/.git'') = None" by simp
  from git_init_commit_Inr [OF g] have G: "nodes w2 ?fp = Some Dir" "git_ready w2"
    "\<not> protected w2 (?fp @ ''/.git'')" by simp_all
  from git_init_commit_new [OF G n2] g
  have w3: "w3 = w2\<lparr>nodes := (nodes w2)(?fp @ ''/.git'' \<mapsto> GitDir [] [[]])\<rparr>" by simp
  from w' w3 M(4) show "fresh_repo ?fp w'" by (simp add: fresh_repo_def)
  from w' w3 M(4) E ne gc show "nodes w' (cwd @ ''/cache'') \<noteq> None" by auto
  from w' w3 M(4) E show "protected w' = protected w" by simp
  from w' w3 M(4) E show "git_ready w' = git_ready w" by simp
  from G(2) M(4) E show "git_ready w" by simp
  from M(3) E show "\<not> protected w ?fp" by simp
  from G(3) M(4) E show "\<not> protected w (cwd @ ''/'' @ sp @ ''/.git'')" by simp
  have len: "length (dirname ?fp) < length ?fp" by (rule dirname_shorter) simp
  then have d1: "dirname ?fp \<noteq> ?fp" and d2: "dirname ?fp \<noteq> ?fp @ ''/.git''" by auto
  from M(1) have "dirname ?fp = [] \<or> nodes w1 (dirname ?fp) = Some Dir"
    by (auto simp: parent_check_def split: if_splits option.splits node.splits)
  with w' w3 M(4) d1 d2 show "dirname ?fp = [] \<or> nodes w' (dirname ?fp) = Some Dir"
    by auto
qed

lemma createStateRepo_runs:
  assumes "nodes w (cwd @ ''/cache'') \<noteq> None"
    and "nodes w (cwd @ ''/'' @ sp) = None" and "nodes w (cwd @ ''/'' @ sp @ ''/.git'') = None"
    and "dirname (cwd @ ''/'' @ sp) = [] \<or> nodes w (dirname (cwd @ ''/'' @ sp)) = Some Dir"
    and "\<not> protected w (cwd @ ''/'' @ sp)" and "\<not> protected w (cwd @ ''/'' @ sp @ ''/.git'')"
    and "git_ready w"
  shows "\<exists>w'. createStateRepo (cwd @ ''/'' @ sp) cwd w = Inr w' \<and> fresh_repo (cwd @ ''/'' @ sp) w'"
proof -
  let ?fp = "cwd @ ''/'' @ sp"
  let ?w2 = "w\<lparr>nodes := (nodes w)(?fp \<mapsto> Dir)\<rparr>"
  from assms(1) have e: "ensureCacheDir cwd w = Inr w" by (rule ensureCacheDir_present)
  from assms(4) have pc: "parent_check w ?fp = None" by (auto simp: parent_check_def)
  with assms have m: "mkdirSync ?fp w = Inr ?w2" by (simp add: mkdirSync_Inr)
  have g: "git_init_commit ?fp ?w2
      = Inr (?w2\<lparr>nodes := (nodes ?w2)(?fp @ ''/.git'' \<mapsto> GitDir [] [[]])\<rparr>)"
    using assms by (intro git_init_commit_new) simp_all
  from e m g show ?thesis
    by (simp add: createStateRepo_def fresh_repo_def)
qed

lemma deleteOldState_Inr:
  "deleteOldState p w = Inr w' \<Longrightarrow>
     protected w' = protected w \<and> git_ready w' = git_ready w
     \<and> (nodes w' = nodes w \<or> nodes w' = (\<lambda>q. if inside p q then None else nodes w q))"
  by (auto simp: deleteOldState_def rmSync_recursive_def split: if_splits)

lemma createStateRepo_target_absent:
  assumes "createStateRepo (cwd @ ''/'' @ sp) cwd w = Inr w'"
  shows "nodes w (cwd @ ''/'' @ sp) = None"
proof -
  from assms obtain w1 w2 where
    e: "ensureCacheDir cwd w = Inr w1" and m: "mkdirSync (cwd @ ''/'' @ sp) w1 = Inr w2"
    by (auto simp: createStateRepo_def and_then_Inr)
  from m have n: "nodes w1 (cwd @ ''/'' @ sp) = None" by (simp add: mkdirSync_Inr)
  with ensureCacheDir_Inr [OF e] show ?thesis by (cases "cwd @ ''/'' @ sp = cwd @ ''/cache''") auto
qed

lemma well_formed_git:
  "well_formed w \<Longrightarrow> d \<noteq> [] \<Longrightarrow> nodes w d = None \<Longrightarrow> nodes w (d @ ''/.git'') = None"
proof (rule ccontr)
  assume wf: "well_formed w" and d: "nodes w d = None" and g: "nodes w (d @ ''/.git'') \<noteq> None"
    and ne: "d \<noteq> []"
  from wf g have "parent_check w (d @ ''/.git'') = None" by (simp add: well_formed_def)
  with d ne show False
    by (auto simp: parent_check_def dirname_git split: if_splits)
qed

lemma well_formed_project_world: "well_formed project_world"
  by (auto simp: well_formed_def project_world_def parent_check_def dirname_def)

lemma resetStateRepo_post:
  assumes wf: "well_formed w" and ok: "resetStateRepo sp cwd w = Inr w1"
  shows "fresh_repo (cwd @ ''/'' @ sp) w1
    \<and> (\<exists>w2. resetStateRepo sp cwd w1 = Inr w2 \<and> fresh_repo (cwd @ ''/'' @ sp) w2)"
proof -
  let ?fp = "cwd @ ''/'' @ sp"
  let ?w0 = "console_log ''Creating state repository...'' w"
  from ok obtain wa where del: "deleteOldState ?fp ?w0 = Inr wa"
    and cr: "createStateRepo ?fp cwd wa = Inr w1"
    by (auto simp: resetStateRepo_def Let_def and_then_Inr)
  have absent: "nodes wa ?fp = None" using cr by (rule createStateRepo_target_absent)
  note D = deleteOldState_Inr [OF del]
  from D have prot: "protected wa = protected w" and gr: "git_ready wa = git_ready w"
    by simp_all
  from D have "nodes wa = nodes w
      \<or> nodes wa = (\<lambda>q. if inside ?fp q then None else nodes w q)" by auto
  then have nogit: "nodes wa (?fp @ ''/.git'') = None"
  proof
    assume wa: "nodes wa = nodes w"
    with absent wf show ?thesis using well_formed_git [of w ?fp] by simp
  next
    assume "nodes wa = (\<lambda>q. if inside ?fp q then None else nodes w q)"
    then show ?thesis using inside_git [of ?fp] by simp
  qed
  then have nogit': "nodes wa (cwd @ ''/'' @ sp @ ''/.git'') = None" by simp
  note C = createStateRepo_Inr [OF cr nogit']
  from C(1) have fresh1: "fresh_repo ?fp w1" .
  let ?w0' = "console_log ''Creating state repository...'' w1"
  let ?wb = "?w0'\<lparr>nodes := (\<lambda>q. if inside ?fp q then None else nodes ?w0' q)\<rparr>"
  from fresh1 C(3,6) prot have "nodes ?w0' ?fp \<noteq> None" "\<not> protected ?w0' ?fp"
    by (simp_all add: fresh_repo_def)
  then have del2: "deleteOldState ?fp ?w0' = Inr ?wb"
    by (auto simp: deleteOldState_def rmSync_recursive_def)
  have cache_out: "\<not> inside ?fp (cwd @ ''/cache'')"
    using C(8) cache_not_below [of cwd sp] by (auto simp: inside_def)
  have "length (dirname ?fp) < length ?fp" by (rule dirname_shorter) simp
  then have parent_out: "\<not> inside ?fp (dirname ?fp)"
    using inside_length [of ?fp "dirname ?fp"] by auto
  have "\<exists>w2. createStateRepo ?fp cwd ?wb = Inr w2 \<and> fresh_repo ?fp w2"
  proof (rule createStateRepo_runs)
    show "nodes ?wb (cwd @ ''/cache'') \<noteq> None" using C(2) cache_out by simp
    show "nodes ?wb ?fp = None" by (simp add: inside_def)
    show "nodes ?wb (cwd @ ''/'' @ sp @ ''/.git'') = None"
      using inside_git [of ?fp] by simp
    show "dirname ?fp = [] \<or> nodes ?wb (dirname ?fp) = Some Dir"
      using C(9) parent_out by auto
    show "\<not> protected ?wb ?fp" using C(3,6) by simp
    show "\<not> protected ?wb (cwd @ ''/'' @ sp @ ''/.git'')" using C(3,7) by simp
    show "git_ready ?wb" using C(4,5) by simp
  qed
  with del2 have "\<exists>w2. resetStateRepo sp cwd w1 = Inr w2 \<and> fresh_repo ?fp w2"
    by (simp add: resetStateRepo_def Let_def)
  with fresh1 show ?thesis by simp
qed

text \<open>
  C5. On a disk where every entry lives in an existing directory: when
  \<open>resetStateRepo(statePath, cwd)\<close> returns, \<open>cwd/statePath\<close> is a directory and a
  repository with exactly one revision, which tracks no file; and a second call right
  after it returns too, with the same result.
\<close>

theorem resetStateRepo_fresh_repo:
  assumes "well_formed w" and "resetStateRepo statePath' cwd w = Inr w1"
  shows "fresh_repo (cwd @ ''/'' @ statePath') w1
    \<and> (\<exists>w2. resetStateRepo statePath' cwd w1 = Inr w2
          \<and> fresh_repo (cwd @ ''/'' @ statePath') w2)"
  using assms by (rule resetStateRepo_post)

lemma reset_project_world:
  "\<exists>w1. resetStateRepo ''cache/state'' ''/w'' project_world = Inr w1"
  by (simp add: resetStateRepo_def Let_def deleteOldState_def rmSync_recursive_def console_log_def
      createStateRepo_def ensureCacheDir_def accessSync_def mkdirSync_def parent_check_def
      dirname_def git_init_commit_def project_world_def)


theorem resetStateRepo_fresh_repo_witness:
  "well_formed project_world
   \<and> (\<exists>w1 w2. resetStateRepo ''cache/state'' ''/w'' project_world = Inr w1
        \<and> fresh_repo ''/w/cache/state'' w1
        \<and> resetStateRepo ''cache/state'' ''/w'' w1 = Inr w2
        \<and> fresh_repo ''/w/cache/state'' w2)"
proof -
  from reset_project_world obtain w1
    where r: "resetStateRepo ''cache/state'' ''/w'' project_world = Inr w1" ..
  from resetStateRepo_fresh_repo [OF well_formed_project_world r] r
  show ?thesis using well_formed_project_world by auto
qed

text \<open>
  C9. When \<open>cwd/cache\<close> exists, the statement of \<open>writeHevmCommand\<close> that ensures
  the cache directory does not raise and changes nothing, so \<open>writeHevmCommand\<close> is
  the write of the file alone; \<open>purgeCache\<close> never raises, and when \<open>cwd/cache\<close>
  does not exist it only logs.
\<close>

theorem cache_dir_idempotent:
  "(nodes w (cwd @ ''/cache'') \<noteq> None \<longrightarrow>
      ensureCacheDir cwd w = Inr w
      \<and> writeHevmCommand command file cwd w = writeFileSync (cwd @ ''/'' @ file) command w)
   \<and> (nodes w (cwd @ ''/cache'') = None \<longrightarrow>
      purgeCache cwd w = Inr (console_log ''Cache didn't exist'' w))
   \<and> (\<exists>w'. purgeCache cwd w = Inr w')"
  by (auto simp: writeHevmCommand_def ensureCacheDir_present purgeCache_def
      rmSync_recursive_def split: sum.splits)

theorem cache_dir_idempotent_witness:
  "nodes cache_world ''/w/cache'' \<noteq> None
   \<and> ensureCacheDir ''/w'' cache_world = Inr cache_world
   \<and> writeHevmCommand ''hevm exec'' ''cache/hevmtemp'' ''/w'' cache_world
       = Inr (cache_world\<lparr>nodes := (nodes cache_world)(''/w/cache/hevmtemp'' \<mapsto> File ''hevm exec'')\<rparr>)
   \<and> nodes project_world ''/w/cache'' = None
   \<and> purgeCache ''/w'' project_world = Inr (console_log ''Cache didn't exist'' project_world)"
  using cache_dir_idempotent [of cache_world "''/w''" "''hevm exec''" "''cache/hevmtemp''"]
    cache_dir_idempotent [of project_world "''/w''"]
  by (simp add: cache_world_def project_world_def writeFileSync_def parent_check_def dirname_def)

text \<open>
  C3, as stated, fails: on a disk where the cache directory exists and may not be
  removed, the removal fails with a permission error, \<open>purgeCache\<close> returns all the
  same, and \<open>resetStateRepo\<close> goes on after the failed removal (what it raises then is
  the \<open>mkdirSync\<close> of the directory that is still there).
\<close>

theorem permission_error_swallowed_counterexample:
  "rmSync_recursive ''/w/cache'' locked_world = Inl EACCES
   \<and> purgeCache ''/w'' locked_world = Inr (console_log ''Cache didn't exist'' locked_world)
   \<and> rmSync_recursive ''/w/cache/state''
        (console_log ''Creating state repository...'' locked_world) = Inl EACCES
   \<and> resetStateRepo ''cache/state'' ''/w'' locked_world = Inl EEXIST"
  by (simp add: purgeCache_def rmSync_recursive_def locked_world_def inside_def
      resetStateRepo_def Let_def deleteOldState_def createStateRepo_def ensureCacheDir_def
      accessSync_def mkdirSync_def parent_check_def dirname_def console_log_def)

text \<open>
  C3, amended. Whatever error the removal raises, not found or any other,
  \<open>purgeCache\<close> logs and returns, and \<open>resetStateRepo\<close> logs and carries on with
  the creation of the repository.
\<close>

theorem deletion_errors_swallowed:
  "(rmSync_recursive (cwd @ ''/cache'') w = Inl e \<longrightarrow>
      purgeCache cwd w = Inr (console_log ''Cache didn't exist'' w))
   \<and> (rmSync_recursive (cwd @ ''/'' @ sp) (console_log ''Creating state repository...'' w) = Inl e \<longrightarrow>
      resetStateRepo sp cwd w =
        createStateRepo (cwd @ ''/'' @ sp) cwd
          (console_log ''Cache didn't exist'' (console_log ''Creating state repository...'' w)))"
  by (simp add: purgeCache_def resetStateRepo_def Let_def deleteOldState_def)

theorem deletion_errors_swallowed_witness:
  "rmSync_recursive ''/w/cache'' locked_world = Inl EACCES
   \<and> purgeCache ''/w'' locked_world = Inr (console_log ''Cache didn't exist'' locked_world)
   \<and> rmSync_recursive ''/w/cache/state''
        (console_log ''Creating state repository...'' locked_world) = Inl EACCES
   \<and> resetStateRepo ''cache/state'' ''/w'' locked_world =
        createStateRepo ''/w/cache/state'' ''/w''
          (console_log ''Cache didn't exist''
            (console_log ''Creating state repository...'' locked_world))"
proof -
  have a: "rmSync_recursive ''/w/cache'' locked_world = Inl EACCES"
    by (simp add: rmSync_recursive_def locked_world_def inside_def)
  have b: "rmSync_recursive ''/w/cache/state''
        (console_log ''Creating state repository...'' locked_world) = Inl EACCES"
    by (simp add: rmSync_recursive_def locked_world_def inside_def console_log_def)
  from a b deletion_errors_swallowed [of "''/w''" locked_world EACCES "''cache/state''"]
  show ?thesis by simp
qed


section \<open>Properties of deploying\<close>























section \<open>Properties of the webview script\<close>

lemma renderInputs_fields:
  "persisted (fst (renderInputs k as i pg)) = persisted pg
   \<and> var_functionSelectors (fst (renderInputs k as i pg)) = var_functionSelectors pg
   \<and> var_selectedFunction (fst (renderInputs k as i pg)) = var_selectedFunction pg
   \<and> options (fst (renderInputs k as i pg)) = options pg
   \<and> selected (fst (renderInputs k as i pg)) = selected pg
   \<and> listeners (fst (renderInputs k as i pg)) = listeners pg"
  by (induction as arbitrary: i pg) (simp_all split: option.splits)

lemma renderInputs_none:
  "persisted pg = Some s \<Longrightarrow> argsValues s = None \<Longrightarrow>
   renderInputs k as i pg = (pg, if as = [] then None else Some TypeError)"
  by (cases as) simp_all

lemma renderInputs_ok:
  "persisted pg = Some s \<Longrightarrow> argsValues s = Some av \<Longrightarrow>
   renderInputs k as i pg =
     (pg\<lparr>inputs := inputs pg @ map (\<lambda>(j, arg). prefill av k j arg) (zip [i..<i + length as] as)\<rparr>,
      None)"
proof (induction as arbitrary: i pg)
  case Nil
  then show ?case by simp
next
  case (Cons a as)
  have "[i..<i + length (a # as)] = i # [Suc i..<Suc i + length as]"
    by (simp add: upt_rec)
  with Cons show ?case by simp
qed

lemma prefill_stored:
  "prefill av k i arg =
     (case stored_value av k i of Some x \<Rightarrow> if x = [] then arg else x | None \<Rightarrow> arg)"
  by (simp add: prefill_def stored_value_def split: option.splits)

text \<open>
  What \<open>createArgsInputs\<close> does on a page whose state has an \<open>argsValues\<close> object:
  one field per argument, holding the value kept if it is not empty, the placeholder
  otherwise.
\<close>

lemma createArgsInputs_with_argsValues:
  assumes "v \<noteq> []" and "var_functionSelectors pg = Some t"
    and "find (\<lambda>(key, value). fnSig value = v) t = Some (k, f)"
    and "persisted pg = Some s" and "argsValues s = Some av"
  shows "createArgsInputs v pg =
      (pg\<lparr>var_selectedFunction := Some (k, f),
          persisted := Some (s\<lparr>selectedFunction := Some (k, f)\<rparr>),
          inputs := map (\<lambda>(i, arg). case stored_value av k i of
                                        Some x \<Rightarrow> if x = [] then arg else x
                                      | None \<Rightarrow> arg)
                      (zip [1..<Suc (length (args f))] (args f))\<rparr>,
       None)"
proof -
  let ?pg1 = "pg\<lparr>var_selectedFunction := Some (k, f),
                 persisted := Some (s\<lparr>selectedFunction := Some (k, f)\<rparr>), inputs := []\<rparr>"
  have "renderInputs k (args f) 1 ?pg1 =
      (?pg1\<lparr>inputs := inputs ?pg1
          @ map (\<lambda>(j, arg). prefill av k j arg) (zip [1..<1 + length (args f)] (args f))\<rparr>, None)"
    using assms(5)
    by (intro renderInputs_ok [where s = "s\<lparr>selectedFunction := Some (k, f)\<rparr>"]) simp_all
  with assms have eq: "createArgsInputs v pg =
      (pg\<lparr>var_selectedFunction := Some (k, f),
          persisted := Some (s\<lparr>selectedFunction := Some (k, f)\<rparr>),
          inputs := map (\<lambda>(j, arg). prefill av k j arg) (zip [1..<Suc (length (args f))] (args f))\<rparr>,
       None)"
    by (simp add: createArgsInputs_def spread_state_def Let_def del: upt_Suc)
  then show ?thesis by (simp add: prefill_stored del: upt_Suc)
qed

text \<open>
  Without an \<open>argsValues\<close> object in the state, choosing a function that has an
  argument raises a TypeError and no field is rendered.
\<close>

lemma createArgsInputs_without_argsValues:
  assumes "v \<noteq> []" and "var_functionSelectors pg = Some t"
    and "find (\<lambda>(key, value). fnSig value = v) t = Some (k, f)"
    and "argsValues (spread_state pg) = None" and "args f \<noteq> []"
  shows "snd (createArgsInputs v pg) = Some TypeError"
    and "inputs (fst (createArgsInputs v pg)) = []"
  using assms
  by (cases "args f"; simp add: createArgsInputs_def Let_def)+

lemma index_of_Some:
  "index_of v xs = Some i \<Longrightarrow> i < length xs \<and> xs ! i = v"
  by (induction xs arbitrary: i) (auto split: if_splits)

lemma find_sig_entry:
  "(k0, f0) \<in> set t \<Longrightarrow> fnSig f0 = v \<Longrightarrow>
   \<exists>k f. find (\<lambda>(key, value). fnSig value = v) t = Some (k, f) \<and> fnSig f = v"
  by (induction t) auto

lemma find_sig_exists:
  "v \<in> set (map (\<lambda>(key, value). fnSig value) t) \<Longrightarrow>
   \<exists>k f. find (\<lambda>(key, value). fnSig value = v) t = Some (k, f) \<and> fnSig f = v"
  using find_sig_entry by fastforce

lemma createArgsInputs_fields:
  "options (fst (createArgsInputs v p)) = options p
   \<and> selected (fst (createArgsInputs v p)) = selected p
   \<and> listeners (fst (createArgsInputs v p)) = listeners p
   \<and> var_functionSelectors (fst (createArgsInputs v p)) = var_functionSelectors p"
  by (simp add: createArgsInputs_def Let_def renderInputs_fields
      split: option.splits prod.splits)

lemma dropdown_value_member:
  "dropdown_value p \<noteq> [] \<Longrightarrow> dropdown_value p \<in> set (options p)"
  by (auto simp: dropdown_value_def split: option.splits if_splits)

lemma dropdown_value_same:
  "options q = options p \<Longrightarrow> selected q = selected p \<Longrightarrow> dropdown_value q = dropdown_value p"
  by (cases "selected p") (simp_all add: dropdown_value_def)

lemma settled_state:
  "settled p \<Longrightarrow> \<exists>s. persisted p = Some s \<and> spread_state p = s \<and> argsValues s = None
     \<and> inputs p = [] \<and> functionSelectors s = var_functionSelectors p
     \<and> options p = map (\<lambda>(key, value). fnSig value) (table_of s)
     \<and> list_all (\<lambda>(key, value). fnSig value \<noteq> []) (table_of s)"
  by (auto simp: settled_def spread_state_def split: option.splits)

text \<open>One run of the click listener on a settled page.\<close>

lemma createArgsInputs_settled:
  assumes "settled p"
  shows "fst (createArgsInputs v p) =
     (if v = [] \<or> var_functionSelectors p = None then p
      else p\<lparr>var_selectedFunction := find (\<lambda>(key, value). fnSig value = v) (table_of (spread_state p)),
             persisted := Some ((spread_state p)
               \<lparr>selectedFunction := find (\<lambda>(key, value). fnSig value = v) (table_of (spread_state p))\<rparr>)\<rparr>)"
proof -
  from settled_state [OF assms] obtain s where s: "persisted p = Some s" "spread_state p = s"
    "argsValues s = None" "inputs p = []" "functionSelectors s = var_functionSelectors p"
    by blast
  have same: "p\<lparr>inputs := []\<rparr> = p" using s(4) by (cases p) simp
  show ?thesis
  proof (cases "v = [] \<or> var_functionSelectors p = None")
    case True
    then show ?thesis by (auto simp: createArgsInputs_def)
  next
    case False
    then obtain t where t: "var_functionSelectors p = Some t" by auto
    with s have tab: "table_of s = t" by (simp add: table_of_def)
    let ?fp = "find (\<lambda>(key, value). fnSig value = v) t"
    let ?p1 = "p\<lparr>var_selectedFunction := ?fp,
                  persisted := Some (s\<lparr>selectedFunction := ?fp\<rparr>), inputs := []\<rparr>"
    have r: "fst (renderInputs k as i (p\<lparr>var_selectedFunction := e,
                  persisted := Some (s\<lparr>selectedFunction := e\<rparr>), inputs := []\<rparr>))
        = p\<lparr>var_selectedFunction := e,
                  persisted := Some (s\<lparr>selectedFunction := e\<rparr>), inputs := []\<rparr>" for k as i e
      using renderInputs_none [of "p\<lparr>var_selectedFunction := e,
                  persisted := Some (s\<lparr>selectedFunction := e\<rparr>), inputs := []\<rparr>"
          "s\<lparr>selectedFunction := e\<rparr>" k as i] s(3) by simp
    have "fst (createArgsInputs v p) = ?p1"
      using False t s(2) r
      by (cases ?fp) (auto simp: createArgsInputs_def Let_def)
    also have "... = p\<lparr>var_selectedFunction := ?fp,
                  persisted := Some (s\<lparr>selectedFunction := ?fp\<rparr>)\<rparr>"
      using s(4) by (cases p) simp
    finally show ?thesis using False s(2) tab by auto
  qed
qed

lemma step_consistent:
  assumes st: "settled p"
    and sel: "selection_fits (spread_state p) \<or> dropdown_value p \<noteq> []"
  shows "consistent (fst (createArgsInputs (dropdown_value p) p))"
    and "dropdown_value (fst (createArgsInputs (dropdown_value p) p)) = dropdown_value p"
    and "listeners (fst (createArgsInputs (dropdown_value p) p)) = listeners p"
proof -
  let ?v = "dropdown_value p"
  let ?q = "fst (createArgsInputs ?v p)"
  note E = createArgsInputs_settled [OF st, of ?v]
  show "dropdown_value ?q = ?v"
    by (rule dropdown_value_same) (simp_all add: createArgsInputs_fields)
  show "listeners ?q = listeners p" by (simp add: createArgsInputs_fields)
  from settled_state [OF st] obtain s where s: "persisted p = Some s" "spread_state p = s"
    "argsValues s = None" "inputs p = []" "functionSelectors s = var_functionSelectors p"
    "options p = map (\<lambda>(key, value). fnSig value) (table_of s)"
    "list_all (\<lambda>(key, value). fnSig value \<noteq> []) (table_of s)"
    by blast
  show "consistent ?q"
  proof (cases "?v = []")
    case True
    with E have "?q = p" by simp
    with st sel True show ?thesis by (simp add: consistent_def)
  next
    case False
    then have mem: "?v \<in> set (map (\<lambda>(key, value). fnSig value) (table_of s))"
      using dropdown_value_member [of p] s(6) by simp
    then have "table_of s \<noteq> []" by auto
    then obtain t where ft: "functionSelectors s = Some t"
      by (cases "functionSelectors s") (auto simp: table_of_def)
    from ft s(5) have t1: "var_functionSelectors p = Some t" by simp
    from ft have t2: "table_of s = t" by (simp add: table_of_def)
    note t = t1 t2
    from find_sig_exists [OF mem] t obtain k f where
      f: "find (\<lambda>(key, value). fnSig value = ?v) t = Some (k, f)" "fnSig f = ?v" by auto
    from E False t s f have q: "?q = p\<lparr>var_selectedFunction := Some (k, f),
        persisted := Some (s\<lparr>selectedFunction := Some (k, f)\<rparr>)\<rparr>" by simp
    have tab: "table_of (s\<lparr>selectedFunction := Some (k, f)\<rparr>) = t"
      using t by (simp add: table_of_def)
    from q s t tab have "settled ?q" by (simp add: settled_def)
    moreover from q f tab have "selection_fits (spread_state ?q)"
      by (simp add: selection_fits_def spread_state_def)
    ultimately show ?thesis by (simp add: consistent_def)
  qed
qed

lemma funpow_consistent:
  "consistent p \<Longrightarrow>
   consistent (((\<lambda>p. fst (createArgsInputs (dropdown_value p) p)) ^^ n) p)"
proof (induction n)
  case 0
  then show ?case by simp
next
  case (Suc n)
  then have c: "consistent (((\<lambda>p. fst (createArgsInputs (dropdown_value p) p)) ^^ n) p)"
    by simp
  then show ?case using step_consistent(1) by (simp add: consistent_def)
qed

lemma click_consistent:
  assumes "settled p"
    and "selection_fits (spread_state p) \<or> (dropdown_value p \<noteq> [] \<and> 0 < listeners p)"
  shows "consistent (click p)"
proof (cases "selection_fits (spread_state p)")
  case True
  with assms(1) have "consistent p" by (simp add: consistent_def)
  then show ?thesis unfolding click_def by (rule funpow_consistent)
next
  case False
  with assms(2) obtain n where n: "listeners p = Suc n" and v: "dropdown_value p \<noteq> []"
    by (cases "listeners p") auto
  from assms(1) v have "consistent (fst (createArgsInputs (dropdown_value p) p))"
    by (intro step_consistent(1)) simp_all
  then have "consistent (((\<lambda>p. fst (createArgsInputs (dropdown_value p) p)) ^^ n)
      (fst (createArgsInputs (dropdown_value p) p)))" by (rule funpow_consistent)
  with n show ?thesis by (simp add: click_def funpow_Suc_right del: funpow.simps)
qed

lemma consistent_state:
  "consistent p \<Longrightarrow> \<exists>s. persisted p = Some s \<and> spread_state p = s \<and> argsValues s = None
     \<and> inputs p = [] \<and> selection_fits s"
  using settled_state by (auto simp: consistent_def)

lemma consistent_fresh: "consistent (startup None)"
  by (simp add: startup_def empty_state_def addOptionsToFunctionSelector_def Let_def
      spread_state_def click_def dropdown_value_def createArgsInputs_def
      consistent_def settled_def selection_fits_def table_of_def)

lemma consistent_load:
  assumes c: "consistent pg" and valid: "list_all (\<lambda>(key, value). fnSig value \<noteq> []) t"
  shows "consistent (loadInterface t pg)"
proof -
  from c have st: "settled pg" by (simp add: consistent_def)
  from settled_state [OF st] obtain s where s: "persisted pg = Some s" "spread_state pg = s"
    "argsValues s = None" "inputs pg = []" by blast
  let ?s1 = "s\<lparr>functionSelectors := Some t\<rparr>"
  let ?p = "pg\<lparr>var_functionSelectors := Some t, persisted := Some ?s1,
               listeners := Suc (listeners pg),
               options := map (\<lambda>(key, value). fnSig value) t,
               selected := (if t = [] then None else Some 0)\<rparr>"
  from s have unfold: "loadInterface t pg = click ?p"
    by (simp add: loadInterface_def addOptionsToFunctionSelector_def Let_def spread_state_def)
  have tab: "table_of ?s1 = t" by (simp add: table_of_def)
  from s valid tab have "settled ?p" by (simp add: settled_def)
  moreover have "selection_fits (spread_state ?p) \<or> (dropdown_value ?p \<noteq> [] \<and> 0 < listeners ?p)"
  proof (cases t)
    case Nil
    then show ?thesis
      by (auto simp: selection_fits_def spread_state_def table_of_def split: option.splits)
  next
    case (Cons e es)
    with valid show ?thesis by (cases e) (simp add: dropdown_value_def)
  qed
  ultimately show ?thesis unfolding unfold by (rule click_consistent)
qed

lemma consistent_choose:
  assumes "consistent pg"
  shows "consistent (chooseFunction v pg)"
proof -
  let ?p = "pg\<lparr>selected := index_of v (options pg)\<rparr>"
  from assms have "settled ?p" "selection_fits (spread_state ?p)"
    by (auto simp: consistent_def settled_def spread_state_def split: option.splits)
  then show ?thesis unfolding chooseFunction_def by (intro click_consistent) simp_all
qed

lemma onInput_settled:
  assumes "settled pg"
  shows "fst (onInput n v pg) = pg"
proof -
  from settled_state [OF assms] obtain s where s: "persisted pg = Some s"
    "argsValues s = None" "inputs pg = []" by blast
  then have "pg\<lparr>inputs := (inputs pg)[n - 1 := v]\<rparr> = pg" by (cases pg) simp
  with s show ?thesis
    by (simp add: onInput_def Let_def split: option.splits prod.splits)
qed

text \<open>The page on which the start of the script runs the click listener.\<close>

lemma startup_unfold:
  "startup (Some s) =
     (let opts = map (\<lambda>(key, value). fnSig value) (table_of s);
          pg = \<lparr>persisted = Some (s\<lparr>functionSelectors := Some (table_of s)\<rparr>),
                var_functionSelectors = Some (table_of s),
                var_selectedFunction = selectedFunction s,
                options = opts,
                selected = (case selectedFunction s of
                              None \<Rightarrow> if opts = [] then None else Some 0
                            | Some (key, value) \<Rightarrow> index_of (fnSig value) opts),
                inputs = [], listeners = Suc 0\<rparr>
      in fst (createArgsInputs (dropdown_value pg) pg))"
  by (cases "selectedFunction s")
    (simp_all add: startup_def cleanState_def addOptionsToFunctionSelector_def Let_def
      spread_state_def click_def table_of_def split: prod.splits)

lemma restart_state:
  assumes c: "consistent pg" and s: "persisted pg = Some s"
  shows "persisted (startup (Some s)) = Some (s\<lparr>functionSelectors := Some (table_of s)\<rparr>)"
    and "consistent (startup (Some s))"
proof -
  let ?t = "table_of s"
  let ?opts = "map (\<lambda>(key, value). fnSig value) ?t"
  let ?s1 = "s\<lparr>functionSelectors := Some ?t\<rparr>"
  let ?sel = "case selectedFunction s of
                None \<Rightarrow> if ?opts = [] then None else Some 0
              | Some (key, value) \<Rightarrow> index_of (fnSig value) ?opts"
  let ?p = "\<lparr>persisted = Some ?s1, var_functionSelectors = Some ?t,
             var_selectedFunction = selectedFunction s, options = ?opts,
             selected = ?sel, inputs = [], listeners = Suc 0\<rparr>"
  let ?v = "dropdown_value ?p"
  have st: "startup (Some s) = fst (createArgsInputs ?v ?p)"
    by (simp add: startup_unfold Let_def)
  from consistent_state [OF c] s have cs: "argsValues s = None" "selection_fits s"
    and valid: "list_all (\<lambda>(key, value). fnSig value \<noteq> []) ?t"
    using c by (auto simp: consistent_def settled_def)
  have tab: "table_of ?s1 = ?t" by (simp add: table_of_def)
  from cs valid tab have settled: "settled ?p" by (simp add: settled_def)
  from cs(2) tab have fits: "selection_fits (spread_state ?p)"
    by (auto simp: selection_fits_def spread_state_def split: option.splits)
  from step_consistent(1) [OF settled] fits st
  show "consistent (startup (Some s))" by simp
  have keep: "find (\<lambda>(key, value). fnSig value = ?v) ?t = selectedFunction s" if v: "?v \<noteq> []"
  proof (cases "selectedFunction s")
    case None
    with cs(2) have "?t = []" by (simp add: selection_fits_def)
    with None have "?v = []" by (simp add: dropdown_value_def)
    with v show ?thesis by simp
  next
    case (Some e)
    obtain k f where e: "e = (k, f)" by (cases e)
    from v obtain i where i: "?sel = Some i" by (cases ?sel) (auto simp: dropdown_value_def)
    with Some e have io: "index_of (fnSig f) ?opts = Some i" by simp
    from index_of_Some [OF io] have lt: "i < length ?opts" and nth: "?opts ! i = fnSig f"
      by blast+
    from lt have "?opts ! i \<in> set ?opts" by (rule nth_mem)
    with nth have mem: "fnSig f \<in> set ?opts" by simp
    from i lt nth have "?v = fnSig f" by (simp add: dropdown_value_def)
    with mem cs(2) Some e show ?thesis by (simp add: selection_fits_def)
  qed
  from createArgsInputs_settled [OF settled, of ?v] st
  have "persisted (startup (Some s)) =
      (if ?v = [] then Some ?s1
       else Some (?s1\<lparr>selectedFunction := find (\<lambda>(key, value). fnSig value = ?v) ?t\<rparr>))"
    using tab by (simp add: spread_state_def)
  with keep show "persisted (startup (Some s)) = Some ?s1"
    by (cases "?v = []") simp_all
qed

lemma reachable_consistent: "reachable pg \<Longrightarrow> consistent pg"
proof (induction rule: reachable.induct)
  case fresh
  show ?case by (rule consistent_fresh)
next
  case (load pg t)
  then show ?case by (intro consistent_load)
next
  case (choose pg v)
  then show ?case by (intro consistent_choose)
next
  case (input pg n v)
  then show ?case by (simp add: onInput_settled consistent_def)
next
  case (restart pg)
  from consistent_state [OF restart.IH] obtain s where "persisted pg = Some s" by blast
  with restart.IH show ?case using restart_state(2) by simp
qed

lemma sample_table_valid: "list_all (\<lambda>(key, value). fnSig value \<noteq> []) sample_table"
  by (simp add: sample_table_def)

lemma reachable_loaded_page: "reachable loaded_page"
  unfolding loaded_page_def by (intro reachable.load reachable.fresh sample_table_valid)

lemma loaded_page_eval:
  "var_functionSelectors loaded_page = Some sample_table"
  "options loaded_page = [''foo()'', ''bar(uint256)'']"
  "listeners loaded_page = 2"
  "persisted loaded_page =
     Some \<lparr>functionSelectors = Some sample_table,
           selectedFunction = Some (''foo'', \<lparr>fnSig = ''foo()'', args = []\<rparr>),
           argsValues = None\<rparr>"
  by (simp_all add: loaded_page_def loadInterface_def startup_def empty_state_def
      sample_table_def addOptionsToFunctionSelector_def Let_def spread_state_def click_def
      dropdown_value_def createArgsInputs_def numeral_2_eq_2)

lemma reachable_chosen_page: "reachable chosen_page"
  unfolding chosen_page_def
  by (intro reachable.choose reachable_loaded_page) (simp add: loaded_page_eval)




text \<open>
  C8. The code misses what the claim says: on every page the script can be on, the
  state has no \<open>argsValues\<close> object and no input field is rendered, and choosing a
  function of the table that has at least one argument raises a TypeError (line 250)
  and renders no field, where the claim has one field per argument.
\<close>

theorem chosen_function_raises:
  assumes "reachable pg"
  shows "argsValues (spread_state pg) = None \<and> inputs pg = []
    \<and> (\<forall>v t k f. v \<noteq> [] \<and> var_functionSelectors pg = Some t
          \<and> find (\<lambda>(key, value). fnSig value = v) t = Some (k, f) \<and> args f \<noteq> []
        \<longrightarrow> snd (createArgsInputs v pg) = Some TypeError
            \<and> inputs (fst (createArgsInputs v pg)) = [])"
proof -
  from assms have "consistent pg" by (rule reachable_consistent)
  from consistent_state [OF this] have a: "argsValues (spread_state pg) = None"
    and i: "inputs pg = []" by auto
  from a i createArgsInputs_without_argsValues show ?thesis by blast
qed

theorem chosen_function_raises_witness:
  "reachable loaded_page
   \<and> persisted (startup None) = Some empty_state
   \<and> var_functionSelectors loaded_page = Some sample_table
   \<and> find (\<lambda>(key, value). fnSig value = ''bar(uint256)'') sample_table
       = Some (''bar'', \<lparr>fnSig = ''bar(uint256)'', args = [''<uint256>'']\<rparr>)
   \<and> snd (createArgsInputs ''bar(uint256)'' loaded_page) = Some TypeError
   \<and> inputs (fst (createArgsInputs ''bar(uint256)'' loaded_page)) = []
   \<and> inputs chosen_page = []"
proof -
  have f: "find (\<lambda>(key, value). fnSig value = ''bar(uint256)'') sample_table
       = Some (''bar'', \<lparr>fnSig = ''bar(uint256)'', args = [''<uint256>'']\<rparr>)"
    by (simp add: sample_table_def)
  have e: "persisted (startup None) = Some empty_state"
    by (simp add: startup_def empty_state_def addOptionsToFunctionSelector_def Let_def
        spread_state_def click_def dropdown_value_def createArgsInputs_def)
  from chosen_function_raises [OF reachable_loaded_page] loaded_page_eval(1) f
  have "snd (createArgsInputs ''bar(uint256)'' loaded_page) = Some TypeError
      \<and> inputs (fst (createArgsInputs ''bar(uint256)'' loaded_page)) = []"
    by fastforce
  moreover from chosen_function_raises [OF reachable_chosen_page]
  have "inputs chosen_page = []" by simp
  ultimately show ?thesis using reachable_loaded_page loaded_page_eval(1) f e by simp
qed

end
